theory Spec2Isabelle
  imports Main "HOL-Library.Word" "HOL-Library.Char_ord" "HOL-Library.List_Lexorder"
    "HOL-Library.Multiset"
begin

section \<open>The line classifier of sloc.go\<close>

text \<open>
  The development embeds \<^verbatim>\<open>language.Update\<close>, \<^verbatim>\<open>lresult.Add\<close> and
  \<^verbatim>\<open>ldata.Less\<close> of \<^verbatim>\<open>sloc.go\<close>.

  \<^item> A Go \<^verbatim>\<open>byte\<close> is a \<^typ>\<open>char\<close> (HOL characters are exactly the 256 byte
    values); a \<^verbatim>\<open>[]byte\<close> and a Go \<^verbatim>\<open>string\<close> are \<^typ>\<open>char list\<close>.
  \<^item> The counters of \<^verbatim>\<open>stats\<close> and \<^verbatim>\<open>lresult\<close> are Go \<^verbatim>\<open>int\<close>s that live
    across calls; they are 64-bit words (Go's \<^verbatim>\<open>int\<close> on a 64-bit target), \<open>+\<close> wraps
    and \<open>sint\<close> reads them.
  \<^item> The locals of \<^verbatim>\<open>Update\<close>: the cursors \<^verbatim>\<open>lp\<close>, \<^verbatim>\<open>sp\<close>, \<^verbatim>\<open>ep\<close> are
    indices (\<^typ>\<open>nat\<close>; they start at 0 and are only incremented or reset), and
    \<^verbatim>\<open>inComment\<close> is an \<^typ>\<open>int\<close>: lemma \<open>scan_depth\<close> below keeps it between 0 and
    the number of bytes read, which is a slice length, so it cannot leave the range of
    a Go \<^verbatim>\<open>int\<close>.
  \<^item> An index expression \<^verbatim>\<open>lc[lp]\<close> out of range panics in Go: the result type is
    an option, \<open>None\<close> being the panic.
\<close>

subsection \<open>Data\<close>

type_synonym byte = char

type_synonym go_int = "64 word"

record commenter =
  LineComment :: "byte list"
  StartComment :: "byte list"
  EndComment :: "byte list"
  Nesting :: bool

definition NUL :: byte where "NUL = CHR 0x00"

definition noComments :: commenter where
  "noComments = \<lparr>LineComment = [NUL], StartComment = [NUL], EndComment = [NUL], Nesting = False\<rparr>"

definition cComments :: commenter where
  "cComments = \<lparr>LineComment = ''//'', StartComment = ''/*'', EndComment = ''*/'', Nesting = False\<rparr>"

definition hsComments :: commenter where
  "hsComments = \<lparr>LineComment = ''--'', StartComment = ''{-'', EndComment = ''-}'', Nesting = True\<rparr>"

text \<open>
  A row of the printed table. Its counters carry the same names as those of \<^verbatim>\<open>stats\<close>;
  they are written \<open>lresult.CodeLines\<close> and so on.
\<close>

record lresult =
  Name :: "byte list"
  FileCount :: go_int
  CodeLines :: go_int
  CommentLines :: go_int
  BlankLines :: go_int
  TotalLines :: go_int

record stats =
  FileCount :: go_int
  TotalLines :: go_int
  CodeLines :: go_int
  BlankLines :: go_int
  CommentLines :: go_int

text \<open>The Go zero value \<^verbatim>\<open>&stats{}\<close>, as \<^verbatim>\<open>handleFile\<close> creates it.\<close>

definition stats0 :: stats where
  "stats0 = \<lparr>FileCount = 0, TotalLines = 0, CodeLines = 0, BlankLines = 0, CommentLines = 0\<rparr>"

text \<open>The local variables of \<^verbatim>\<open>Update\<close> that live across loop iterations.\<close>

record scanner =
  inComment :: int
  inLComment :: bool
  blank :: bool
  lp :: nat
  sp :: nat
  ep :: nat

definition scanner0 :: scanner where
  "scanner0 = \<lparr>inComment = 0, inLComment = False, blank = True, lp = 0, sp = 0, ep = 0\<rparr>"

subsection \<open>The loop body\<close>

text \<open>\<^verbatim>\<open>tok[i]\<close>: a panic when the index is out of range.\<close>

definition index :: "byte list \<Rightarrow> nat \<Rightarrow> byte option" where
  "index tok i = (if i < length tok then Some (tok ! i) else None)"

text \<open>
  Lines 105--113. Go's \<^verbatim>\<open>&&\<close> is short-circuit: \<^verbatim>\<open>lc[lp]\<close> is read only when
  \<^verbatim>\<open>inComment == 0\<close>.
\<close>

definition matchLine :: "commenter \<Rightarrow> byte \<Rightarrow> scanner \<Rightarrow> scanner option" where
  "matchLine l b t =
     (if inComment t = 0 then
        (case index (LineComment l) (lp t) of
           None \<Rightarrow> None
         | Some x \<Rightarrow>
             if b = x then
               (let t1 = t\<lparr>lp := lp t + 1\<rparr>
                in if lp t1 = length (LineComment l)
                   then Some (t1\<lparr>inLComment := True, lp := 0\<rparr>)
                   else Some t1)
             else Some (t\<lparr>lp := 0\<rparr>))
      else Some (t\<lparr>lp := 0\<rparr>))"

text \<open>Lines 114--125.\<close>

definition matchStart :: "commenter \<Rightarrow> byte \<Rightarrow> scanner \<Rightarrow> scanner option" where
  "matchStart l b t =
     (if \<not> inLComment t then
        (case index (StartComment l) (sp t) of
           None \<Rightarrow> None
         | Some x \<Rightarrow>
             if b = x then
               (let t1 = t\<lparr>sp := sp t + 1\<rparr>
                in if sp t1 = length (StartComment l)
                   then (let t2 = t1\<lparr>inComment := inComment t1 + 1\<rparr>;
                             t3 = (if inComment t2 > 1 \<and> \<not> Nesting l
                                   then t2\<lparr>inComment := 1\<rparr> else t2)
                         in Some (t3\<lparr>sp := 0\<rparr>))
                   else Some t1)
             else Some (t\<lparr>sp := 0\<rparr>))
      else Some (t\<lparr>sp := 0\<rparr>))"

text \<open>Lines 126--136.\<close>

definition matchEnd :: "commenter \<Rightarrow> byte \<Rightarrow> scanner \<Rightarrow> scanner option" where
  "matchEnd l b t =
     (if \<not> inLComment t \<and> inComment t > 0 then
        (case index (EndComment l) (ep t) of
           None \<Rightarrow> None
         | Some x \<Rightarrow>
             if b = x then
               (let t1 = t\<lparr>ep := ep t + 1\<rparr>
                in if ep t1 = length (EndComment l)
                   then (let t2 = (if inComment t1 > 0
                                   then t1\<lparr>inComment := inComment t1 - 1\<rparr> else t1)
                         in Some (t2\<lparr>ep := 0\<rparr>))
                   else Some t1)
             else Some (t\<lparr>ep := 0\<rparr>))
      else Some (t\<lparr>ep := 0\<rparr>))"

text \<open>Lines 138--140.\<close>

definition isSpace :: "byte \<Rightarrow> bool" where
  "isSpace b = (b = CHR '' '' \<or> b = CHR 0x09 \<or> b = CHR 0x0A \<or> b = CHR 0x0D)"

definition markBlank :: "byte \<Rightarrow> scanner \<Rightarrow> scanner" where
  "markBlank b t = (if \<not> isSpace b then t\<lparr>blank := False\<rparr> else t)"

text \<open>Lines 145--157: the tally at a newline byte.\<close>

definition newline :: "scanner \<times> stats \<Rightarrow> scanner \<times> stats" where
  "newline ts =
     (let t = fst ts; s = (snd ts)\<lparr>TotalLines := TotalLines (snd ts) + 1\<rparr>
      in if inComment t > 0 \<or> inLComment t
         then (t\<lparr>inLComment := False, blank := True\<rparr>, s\<lparr>CommentLines := CommentLines s + 1\<rparr>)
         else if blank t
         then (t\<lparr>blank := True\<rparr>, s\<lparr>BlankLines := BlankLines s + 1\<rparr>)
         else (t\<lparr>blank := True\<rparr>, s\<lparr>CodeLines := CodeLines s + 1\<rparr>))"

text \<open>One iteration of the \<^verbatim>\<open>for _, b := range c\<close> loop.\<close>

definition body :: "commenter \<Rightarrow> byte \<Rightarrow> scanner \<times> stats \<Rightarrow> (scanner \<times> stats) option" where
  "body l b ts =
     (case matchLine l b (fst ts) of None \<Rightarrow> None | Some t1 \<Rightarrow>
       (case matchStart l b t1 of None \<Rightarrow> None | Some t2 \<Rightarrow>
         (case matchEnd l b t2 of None \<Rightarrow> None | Some t3 \<Rightarrow>
           (let t4 = markBlank b t3
            in if b = CHR 0x0A then Some (newline (t4, snd ts)) else Some (t4, snd ts)))))"

subsection \<open>The loop and Update\<close>

fun scan :: "commenter \<Rightarrow> byte list \<Rightarrow> scanner \<times> stats \<Rightarrow> (scanner \<times> stats) option" where
  "scan l [] ts = Some ts"
| "scan l (b # bs) ts = (case body l b ts of None \<Rightarrow> None | Some ts' \<Rightarrow> scan l bs ts')"

definition Update :: "commenter \<Rightarrow> byte list \<Rightarrow> stats \<Rightarrow> stats option" where
  "Update l c s =
     map_option snd (scan l c (scanner0, s\<lparr>FileCount := FileCount s + 1\<rparr>))"

subsection \<open>The table rows\<close>

text \<open>\<^verbatim>\<open>func (r *lresult) Add(a lresult)\<close>: the receiver after the call.\<close>

definition Add :: "lresult \<Rightarrow> lresult \<Rightarrow> lresult" where
  "Add r a =
     r\<lparr>lresult.FileCount := lresult.FileCount r + lresult.FileCount a,
       lresult.CodeLines := lresult.CodeLines r + lresult.CodeLines a,
       lresult.CommentLines := lresult.CommentLines r + lresult.CommentLines a,
       lresult.BlankLines := lresult.BlankLines r + lresult.BlankLines a,
       lresult.TotalLines := lresult.TotalLines r + lresult.TotalLines a\<rparr>"

text \<open>The row that \<^verbatim>\<open>printInfo\<close> builds from a language name and its counters (lines 311--318).\<close>

definition row :: "byte list \<Rightarrow> stats \<Rightarrow> lresult" where
  "row n i =
     \<lparr>Name = n, lresult.FileCount = FileCount i, lresult.CodeLines = CodeLines i,
      lresult.CommentLines = CommentLines i, lresult.BlankLines = BlankLines i,
      lresult.TotalLines = TotalLines i\<rparr>"

text \<open>
  The comparison of \<^verbatim>\<open>ldata.Less\<close> on two rows. Go compares strings bytewise and
  lexicographically, a proper prefix being smaller, which is the order of
  \<^typ>\<open>char list\<close>; Go compares \<^verbatim>\<open>int\<close>s as signed values.
\<close>

definition rowLess :: "lresult \<Rightarrow> lresult \<Rightarrow> bool" where
  "rowLess x y =
     (if lresult.CodeLines x = lresult.CodeLines y then Name x > Name y
      else sint (lresult.CodeLines x) > sint (lresult.CodeLines y))"

text \<open>\<^verbatim>\<open>func (d ldata) Less(i, j int) bool\<close>; \<^verbatim>\<open>d[i]\<close> panics out of range.\<close>

definition Less :: "lresult list \<Rightarrow> nat \<Rightarrow> nat \<Rightarrow> bool option" where
  "Less d i j = (if i < length d \<and> j < length d then Some (rowLess (d ! i) (d ! j)) else None)"

text \<open>
  \<^verbatim>\<open>sort.Sort\<close> belongs to Go's standard library. Its contract: the result is a
  permutation of the input in which no element is \<^verbatim>\<open>Less\<close> than an earlier one.
\<close>

definition inOrder :: "lresult list \<Rightarrow> bool" where
  "inOrder d = sorted_wrt (\<lambda>x y. \<not> rowLess y x) d"

definition sortResult :: "lresult list \<Rightarrow> lresult list \<Rightarrow> bool" where
  "sortResult d out = (mset out = mset d \<and> inOrder out)"

subsection \<open>Notions used in the statements\<close>

text \<open>Field-wise sum of two counter records: how a scan changes its accumulator.\<close>

definition stats_plus :: "stats \<Rightarrow> stats \<Rightarrow> stats" where
  "stats_plus a d =
     \<lparr>FileCount = FileCount a + FileCount d, TotalLines = TotalLines a + TotalLines d,
      CodeLines = CodeLines a + CodeLines d, BlankLines = BlankLines a + BlankLines d,
      CommentLines = CommentLines a + CommentLines d\<rparr>"

definition sum_ok :: "stats \<Rightarrow> bool" where
  "sum_ok s = (CodeLines s + CommentLines s + BlankLines s = TotalLines s)"

definition count_nl :: "byte list \<Rightarrow> nat" where
  "count_nl c = length (filter (\<lambda>b. b = CHR 0x0A) c)"

text \<open>The input cut after its last newline byte (empty when it has none).\<close>

definition fullLines :: "byte list \<Rightarrow> byte list" where
  "fullLines c = rev (dropWhile (\<lambda>b. b \<noteq> CHR 0x0A) (rev c))"

text \<open>A well-formed comment description: no token is empty.\<close>

definition wellformed :: "commenter \<Rightarrow> bool" where
  "wellformed l = (LineComment l \<noteq> [] \<and> StartComment l \<noteq> [] \<and> EndComment l \<noteq> [])"

text \<open>Every cursor is an index into its token, and the depth is not negative.\<close>

definition cursors_ok :: "commenter \<Rightarrow> scanner \<Rightarrow> bool" where
  "cursors_ok l t =
     (lp t < length (LineComment l) \<and> sp t < length (StartComment l) \<and>
      ep t < length (EndComment l) \<and> 0 \<le> inComment t)"

text \<open>
  The states at the end of each completed iteration of the loop, in order; the list
  stops where an iteration panics.
\<close>

fun trace :: "commenter \<Rightarrow> byte list \<Rightarrow> scanner \<times> stats \<Rightarrow> (scanner \<times> stats) list" where
  "trace l [] ts = []"
| "trace l (b # bs) ts =
     (case body l b ts of None \<Rightarrow> [] | Some ts' \<Rightarrow> ts' # trace l bs ts')"

text \<open>The value of \<^verbatim>\<open>inComment\<close> after each byte of a scan that starts afresh.\<close>

definition depths :: "commenter \<Rightarrow> byte list \<Rightarrow> int list" where
  "depths l c = map (\<lambda>ts. inComment (fst ts)) (trace l c (scanner0, stats0))"

section \<open>Properties\<close>

subsection \<open>The loop, piecewise\<close>

lemma scan_append: "scan l (xs @ ys) ts = Option.bind (scan l xs ts) (scan l ys)"
  by (induction xs arbitrary: ts) (auto split: option.splits)

subsection \<open>The scanner does not read the counters\<close>

lemma newline_plus:
  "newline (t, stats_plus s d) = (fst (newline (t, s)), stats_plus (snd (newline (t, s))) d)"
  by (simp add: newline_def Let_def stats_plus_def)

lemma body_plus:
  "body l b (t, stats_plus s d) =
     map_option (\<lambda>ts. (fst ts, stats_plus (snd ts) d)) (body l b (t, s))"
  by (simp add: body_def newline_plus Let_def split: option.splits)

lemma scan_plus:
  "scan l c (t, stats_plus s d) =
     map_option (\<lambda>ts. (fst ts, stats_plus (snd ts) d)) (scan l c (t, s))"
proof (induction c arbitrary: t s)
  case Nil
  show ?case by simp
next
  case (Cons b bs)
  show ?case
  proof (cases "body l b (t, s)")
    case None
    then show ?thesis by (simp add: body_plus)
  next
    case (Some ts')
    obtain t' s' where ts': "ts' = (t', s')" by (cases ts')
    with Some Cons.IH [of t' s'] show ?thesis by (simp add: body_plus)
  qed
qed

subsection \<open>What one byte does to the counters\<close>

lemma newline_sum: "newline (t, s) = (t', s') \<Longrightarrow> sum_ok s \<Longrightarrow> sum_ok s'"
  by (auto simp: newline_def Let_def sum_ok_def algebra_simps split: if_splits)

lemma newline_total: "newline (t, s) = (t', s') \<Longrightarrow> TotalLines s' = TotalLines s + 1"
  by (auto simp: newline_def Let_def split: if_splits)

lemma body_stats:
  assumes "body l b (t, s) = Some (t', s')"
  shows "b \<noteq> CHR 0x0A \<Longrightarrow> s' = s"
    and "sum_ok s \<Longrightarrow> sum_ok s'"
    and "TotalLines s' = TotalLines s + (if b = CHR 0x0A then 1 else 0)"
  using assms
  by (auto simp: body_def Let_def split: option.splits if_splits
      dest: newline_sum newline_total)

lemma scan_stats_same:
  "scan l c (t, s) = Some (t', s') \<Longrightarrow> CHR 0x0A \<notin> set c \<Longrightarrow> s' = s"
proof (induction c arbitrary: t s)
  case Nil
  then show ?case by simp
next
  case (Cons b bs)
  from Cons.prems(1) obtain t1 s1 where b: "body l b (t, s) = Some (t1, s1)"
    and r: "scan l bs (t1, s1) = Some (t', s')"
    by (auto split: option.splits)
  from Cons.prems(2) have "b \<noteq> CHR 0x0A" by auto
  with b have "s1 = s" by (simp add: body_stats(1))
  with Cons.IH [OF r] Cons.prems(2) show ?case by simp
qed

lemma scan_sum_ok:
  "scan l c (t, s) = Some (t', s') \<Longrightarrow> sum_ok s \<Longrightarrow> sum_ok s'"
proof (induction c arbitrary: t s)
  case Nil
  then show ?case by simp
next
  case (Cons b bs)
  from Cons.prems(1) obtain t1 s1 where b: "body l b (t, s) = Some (t1, s1)"
    and r: "scan l bs (t1, s1) = Some (t', s')"
    by (auto split: option.splits)
  from body_stats(2) [OF b Cons.prems(2)] Cons.IH [OF r] show ?case by simp
qed

lemma scan_total:
  "scan l c (t, s) = Some (t', s') \<Longrightarrow> TotalLines s' = TotalLines s + of_nat (count_nl c)"
proof (induction c arbitrary: t s)
  case Nil
  then show ?case by (simp add: count_nl_def)
next
  case (Cons b bs)
  from Cons.prems(1) obtain t1 s1 where b: "body l b (t, s) = Some (t1, s1)"
    and r: "scan l bs (t1, s1) = Some (t', s')"
    by (auto split: option.splits)
  from body_stats(3) [OF b] Cons.IH [OF r] show ?case
    by (simp add: count_nl_def)
qed

subsection \<open>Cursors stay inside their tokens\<close>

lemma matchLine_ok:
  assumes "lp t < length (LineComment l)"
  shows "\<exists>t'. matchLine l b t = Some t' \<and> lp t' < length (LineComment l) \<and>
           sp t' = sp t \<and> ep t' = ep t \<and> inComment t' = inComment t"
  using assms by (auto simp: matchLine_def index_def Let_def)

lemma matchStart_ok:
  assumes "sp t < length (StartComment l)"
  shows "\<exists>t'. matchStart l b t = Some t' \<and> sp t' < length (StartComment l) \<and>
           lp t' = lp t \<and> ep t' = ep t \<and>
           (0 \<le> inComment t \<longrightarrow> 0 \<le> inComment t') \<and> inComment t' \<le> inComment t + 1 \<and>
           (\<not> Nesting l \<and> inComment t \<le> 1 \<longrightarrow> inComment t' \<le> 1)"
  using assms by (auto simp: matchStart_def index_def Let_def)

lemma matchEnd_ok:
  assumes "ep t < length (EndComment l)"
  shows "\<exists>t'. matchEnd l b t = Some t' \<and> ep t' < length (EndComment l) \<and>
           lp t' = lp t \<and> sp t' = sp t \<and>
           inComment t' \<le> inComment t \<and> (0 \<le> inComment t \<longrightarrow> 0 \<le> inComment t')"
  using assms by (auto simp: matchEnd_def index_def Let_def)

lemma markBlank_same:
  "lp (markBlank b t) = lp t" "sp (markBlank b t) = sp t" "ep (markBlank b t) = ep t"
  "inComment (markBlank b t) = inComment t"
  by (simp_all add: markBlank_def)

lemma newline_same:
  "lp (fst (newline (t, s))) = lp t" "sp (fst (newline (t, s))) = sp t"
  "ep (fst (newline (t, s))) = ep t" "inComment (fst (newline (t, s))) = inComment t"
  by (simp_all add: newline_def Let_def)

lemma body_ok:
  assumes "cursors_ok l t"
  shows "\<exists>t' s'. body l b (t, s) = Some (t', s') \<and> cursors_ok l t' \<and>
           inComment t' \<le> inComment t + 1 \<and>
           (\<not> Nesting l \<and> inComment t \<le> 1 \<longrightarrow> inComment t' \<le> 1)"
proof -
  from assms have c: "lp t < length (LineComment l)" "sp t < length (StartComment l)"
    "ep t < length (EndComment l)" "0 \<le> inComment t"
    by (simp_all add: cursors_ok_def)
  from matchLine_ok [OF c(1), of b] obtain t1 where
    t1: "matchLine l b t = Some t1" "lp t1 < length (LineComment l)"
      "sp t1 = sp t" "ep t1 = ep t" "inComment t1 = inComment t"
    by blast
  from c(2) t1(3) have "sp t1 < length (StartComment l)" by simp
  from matchStart_ok [OF this, of b] obtain t2 where
    t2: "matchStart l b t1 = Some t2" "sp t2 < length (StartComment l)"
      "lp t2 = lp t1" "ep t2 = ep t1" "0 \<le> inComment t1 \<longrightarrow> 0 \<le> inComment t2"
      "inComment t2 \<le> inComment t1 + 1"
      "\<not> Nesting l \<and> inComment t1 \<le> 1 \<longrightarrow> inComment t2 \<le> 1"
    by blast
  from c(3) t1(4) t2(4) have "ep t2 < length (EndComment l)" by simp
  from matchEnd_ok [OF this, of b] obtain t3 where
    t3: "matchEnd l b t2 = Some t3" "ep t3 < length (EndComment l)"
      "lp t3 = lp t2" "sp t3 = sp t2" "inComment t3 \<le> inComment t2"
      "0 \<le> inComment t2 \<longrightarrow> 0 \<le> inComment t3"
    by blast
  define r where "r = (if b = CHR 0x0A then newline (markBlank b t3, s) else (markBlank b t3, s))"
  have b: "body l b (t, s) = Some r"
    by (simp add: body_def t1(1) t2(1) t3(1) r_def)
  have same: "lp (fst r) = lp t3" "sp (fst r) = sp t3" "ep (fst r) = ep t3"
    "inComment (fst r) = inComment t3"
    by (simp_all add: r_def markBlank_same newline_same)
  have "cursors_ok l (fst r)"
    using c(4) t1 t2 t3 by (simp add: cursors_ok_def same)
  moreover have "inComment (fst r) \<le> inComment t + 1"
    using t1(5) t2(6) t3(5) by (simp add: same)
  moreover have "\<not> Nesting l \<and> inComment t \<le> 1 \<longrightarrow> inComment (fst r) \<le> 1"
    using t1(5) t2(7) t3(5) by (auto simp add: same)
  ultimately show ?thesis using b by (cases r) auto
qed

lemma scan_ok:
  "cursors_ok l t \<Longrightarrow>
     \<exists>t' s'. scan l c (t, s) = Some (t', s') \<and> cursors_ok l t' \<and>
       inComment t' \<le> inComment t + int (length c)"
proof (induction c arbitrary: t s)
  case Nil
  then show ?case by simp
next
  case (Cons b bs)
  from body_ok [OF Cons.prems, of b s] obtain t1 s1 where
    b: "body l b (t, s) = Some (t1, s1)" "cursors_ok l t1" "inComment t1 \<le> inComment t + 1"
    by blast
  from Cons.IH [OF b(2), of s1] obtain t' s' where
    r: "scan l bs (t1, s1) = Some (t', s')" "cursors_ok l t'"
      "inComment t' \<le> inComment t1 + int (length bs)"
    by blast
  from b r show ?case by simp
qed

lemma trace_ok:
  "cursors_ok l t \<Longrightarrow>
     length (trace l c (t, s)) = length c \<and>
     (\<forall>ts \<in> set (trace l c (t, s)). cursors_ok l (fst ts))"
proof (induction c arbitrary: t s)
  case Nil
  then show ?case by simp
next
  case (Cons b bs)
  from body_ok [OF Cons.prems, of b s] obtain t1 s1 where
    b: "body l b (t, s) = Some (t1, s1)" "cursors_ok l t1"
    by blast
  from Cons.IH [OF b(2), of s1] b show ?case by simp
qed

lemma trace_clamped:
  "cursors_ok l t \<Longrightarrow> \<not> Nesting l \<Longrightarrow> inComment t \<le> 1 \<Longrightarrow>
     \<forall>ts \<in> set (trace l c (t, s)). inComment (fst ts) \<le> 1"
proof (induction c arbitrary: t s)
  case Nil
  then show ?case by simp
next
  case (Cons b bs)
  from body_ok [OF Cons.prems(1), of b s] Cons.prems(2,3) obtain t1 s1 where
    b: "body l b (t, s) = Some (t1, s1)" "cursors_ok l t1" "inComment t1 \<le> 1"
    by blast
  from Cons.IH [OF b(2) Cons.prems(2) b(3), of s1] b show ?case by simp
qed

lemma scanner0_ok: "wellformed l \<Longrightarrow> cursors_ok l scanner0"
  by (simp add: wellformed_def cursors_ok_def scanner0_def)

subsection \<open>The depth moves by at most one per byte\<close>

lemma matchLine_depth: "matchLine l b t = Some t' \<Longrightarrow> inComment t' = inComment t"
  by (auto simp: matchLine_def Let_def split: option.splits if_splits)

lemma matchStart_depth:
  "matchStart l b t = Some t' \<Longrightarrow>
     inComment t' \<le> inComment t + 1 \<and> (0 \<le> inComment t \<longrightarrow> 0 \<le> inComment t')"
  by (auto simp: matchStart_def Let_def split: option.splits if_splits)

lemma matchEnd_depth:
  "matchEnd l b t = Some t' \<Longrightarrow>
     inComment t' \<le> inComment t \<and> (0 \<le> inComment t \<longrightarrow> 0 \<le> inComment t')"
  by (auto simp: matchEnd_def Let_def split: option.splits if_splits)

lemma body_depth:
  assumes "body l b (t, s) = Some (t', s')"
  shows "inComment t' \<le> inComment t + 1 \<and> (0 \<le> inComment t \<longrightarrow> 0 \<le> inComment t')"
proof -
  from assms obtain t1 t2 t3 where m: "matchLine l b t = Some t1" "matchStart l b t1 = Some t2"
    "matchEnd l b t2 = Some t3"
    and r: "(t', s') = (if b = CHR 0x0A then newline (markBlank b t3, s) else (markBlank b t3, s))"
    by (auto simp: body_def Let_def split: option.splits if_splits)
  from arg_cong [OF r, of fst]
  have "t' = fst (if b = CHR 0x0A then newline (markBlank b t3, s) else (markBlank b t3, s))"
    by simp
  then have "inComment t' = inComment t3"
    by (simp add: markBlank_same newline_same)
  with matchLine_depth [OF m(1)] matchStart_depth [OF m(2)] matchEnd_depth [OF m(3)]
  show ?thesis by auto
qed

lemma scan_depth:
  "scan l c (t, s) = Some (t', s') \<Longrightarrow>
     inComment t' \<le> inComment t + int (length c) \<and> (0 \<le> inComment t \<longrightarrow> 0 \<le> inComment t')"
proof (induction c arbitrary: t s)
  case Nil
  then show ?case by simp
next
  case (Cons b bs)
  from Cons.prems obtain t1 s1 where b: "body l b (t, s) = Some (t1, s1)"
    and r: "scan l bs (t1, s1) = Some (t', s')"
    by (auto split: option.splits)
  from body_depth [OF b] Cons.IH [OF r] show ?case by auto
qed

subsection \<open>Update adds a contribution that depends on the file alone\<close>

lemma stats_plus_commute: "stats_plus a (stats_plus b s) = stats_plus b (stats_plus a s)"
  by (simp add: stats_plus_def algebra_simps)

lemma Update_delta: "Update l c s = map_option (\<lambda>d. stats_plus d s) (Update l c stats0)"
proof -
  have "s\<lparr>FileCount := FileCount s + 1\<rparr> = stats_plus (stats0\<lparr>FileCount := FileCount stats0 + 1\<rparr>) s"
    by (simp add: stats_plus_def stats0_def)
  then show ?thesis
    by (simp add: Update_def scan_plus option.map_comp comp_def)
qed

lemma Update_ok: "wellformed l \<Longrightarrow> \<exists>s'. Update l c s = Some s'"
  using scan_ok [OF scanner0_ok, of l c "s\<lparr>FileCount := FileCount s + 1\<rparr>"]
  by (auto simp: Update_def)

subsection \<open>The bytes after the last newline\<close>

lemma fullLines_split:
  "\<exists>r. c = fullLines c @ r \<and> CHR 0x0A \<notin> set r"
proof -
  have "rev c = takeWhile (\<lambda>b. b \<noteq> CHR 0x0A) (rev c) @ dropWhile (\<lambda>b. b \<noteq> CHR 0x0A) (rev c)"
    by simp
  then have "c = fullLines c @ rev (takeWhile (\<lambda>b. b \<noteq> CHR 0x0A) (rev c))"
    unfolding fullLines_def by (metis rev_append rev_rev_ident)
  moreover have "CHR 0x0A \<notin> set (rev (takeWhile (\<lambda>b. b \<noteq> CHR 0x0A) (rev c)))"
    by (auto dest: set_takeWhileD)
  ultimately show ?thesis by blast
qed

lemma fullLines_last: "fullLines c = [] \<or> last (fullLines c) = CHR 0x0A"
proof (cases "dropWhile (\<lambda>b. b \<noteq> CHR 0x0A) (rev c)")
  case Nil
  then show ?thesis by (simp add: fullLines_def)
next
  case (Cons x xs)
  then have "x = CHR 0x0A" using hd_dropWhile [of "\<lambda>b. b \<noteq> CHR 0x0A" "rev c"] by auto
  with Cons show ?thesis by (simp add: fullLines_def)
qed

lemma Update_prefix:
  assumes "Update l (xs @ r) s = Some s'" and "CHR 0x0A \<notin> set r"
  shows "Update l xs s = Some s'"
proof -
  let ?i = "(scanner0, s\<lparr>FileCount := FileCount s + 1\<rparr>)"
  from assms(1) obtain t' where a: "scan l (xs @ r) ?i = Some (t', s')"
    by (auto simp: Update_def)
  then obtain t1 s1 where x: "scan l xs ?i = Some (t1, s1)" and r: "scan l r (t1, s1) = Some (t', s')"
    by (auto simp: scan_append bind_eq_Some_conv)
  from scan_stats_same [OF r assms(2)] have "s' = s1" .
  with x show ?thesis by (simp add: Update_def)
qed

subsection \<open>Reading a counter as a signed number\<close>

lemma sint_of_nat_small: "n < 2 ^ 63 \<Longrightarrow> sint (word_of_nat n :: 64 word) = int n"
  by (simp add: signed_of_nat signed_take_bit_int_eq_self)

subsection \<open>What Add does to each field\<close>

lemma Add_counts:
  "lresult.FileCount (Add r a) = lresult.FileCount r + lresult.FileCount a"
  "lresult.CodeLines (Add r a) = lresult.CodeLines r + lresult.CodeLines a"
  "lresult.CommentLines (Add r a) = lresult.CommentLines r + lresult.CommentLines a"
  "lresult.BlankLines (Add r a) = lresult.BlankLines r + lresult.BlankLines a"
  "lresult.TotalLines (Add r a) = lresult.TotalLines r + lresult.TotalLines a"
  "Name (Add r a) = Name r"
  by (simp_all add: Add_def)

subsection \<open>The order of the rows\<close>

lemma rowLess_iff:
  "rowLess x y \<longleftrightarrow>
     sint (lresult.CodeLines x) > sint (lresult.CodeLines y) \<or>
     (lresult.CodeLines x = lresult.CodeLines y \<and> Name x > Name y)"
  by (auto simp: rowLess_def word_eq_iff_signed [where ?'a = int])

lemma rowLess_total:
  "Name x \<noteq> Name y \<Longrightarrow> rowLess x y \<or> rowLess y x"
  by (auto simp: rowLess_iff word_eq_iff_signed [where ?'a = int])

text \<open>A list sorted for an antisymmetric relation is determined by its elements.\<close>

lemma sorted_wrt_mset_unique:
  assumes "\<And>x y. x \<in> set xs \<Longrightarrow> y \<in> set xs \<Longrightarrow> R x y \<Longrightarrow> R y x \<Longrightarrow> x = y"
    and "sorted_wrt R xs" and "sorted_wrt R ys" and "mset xs = mset ys"
  shows "xs = ys"
  using assms
proof (induction xs arbitrary: ys)
  case Nil
  then show ?case by simp
next
  case (Cons x xs)
  from Cons.prems(4) have "ys \<noteq> []" by auto
  then obtain y ys' where ys: "ys = y # ys'" by (cases ys) auto
  from Cons.prems(4) have sets: "set (x # xs) = set ys" by (metis set_mset_mset)
  have xy: "x = y"
  proof (rule ccontr)
    assume ne: "x \<noteq> y"
    with sets ys have "x \<in> set ys'" "y \<in> set xs" by auto
    with Cons.prems(2,3) ys have "R y x" "R x y" by auto
    with Cons.prems(1) [of x y] sets ys have "x = y" by auto
    with ne show False by contradiction
  qed
  with Cons.prems(4) ys have m: "mset xs = mset ys'" by simp
  have "xs = ys'"
  proof (rule Cons.IH)
    show "x' = y'" if "x' \<in> set xs" "y' \<in> set xs" "R x' y'" "R y' x'" for x' y'
      using that Cons.prems(1) [of x' y'] by simp
    show "sorted_wrt R xs" using Cons.prems(2) by simp
    show "sorted_wrt R ys'" using Cons.prems(3) ys by simp
    show "mset xs = mset ys'" by (fact m)
  qed
  with xy ys show ?case by simp
qed

subsection \<open>The byte that closes a block comment, and the newline after it\<close>




section \<open>The claims\<close>

text \<open>
  The evaluation of the definitions on concrete inputs unfolds these equations.
\<close>

lemmas run_defs = Update_def body_def matchLine_def matchStart_def matchEnd_def markBlank_def
  isSpace_def newline_def index_def stats0_def scanner0_def

text \<open>
  C1. For every byte sequence and every comment description, a scan that starts from the
  zero accumulator ends with \<open>CodeLines + CommentLines + BlankLines = TotalLines\<close> and
  with \<open>TotalLines\<close> equal to the number of newline bytes of the input (as a 64-bit
  counter; read as a signed number it is that count for every input a Go slice can
  hold). A scan on an accumulator that satisfies the sum identity ends with one that
  satisfies it, so the identity holds after every later scan as well. For a
  well-formed description the scan does return.
\<close>

theorem update_line_totals:
  "(Update l c stats0 = Some s' \<longrightarrow>
      CodeLines s' + CommentLines s' + BlankLines s' = TotalLines s' \<and>
      TotalLines s' = of_nat (count_nl c) \<and>
      (length c < 2 ^ 63 \<longrightarrow> sint (TotalLines s') = int (count_nl c))) \<and>
   (CodeLines s + CommentLines s + BlankLines s = TotalLines s \<and> Update l c s = Some s2 \<longrightarrow>
      CodeLines s2 + CommentLines s2 + BlankLines s2 = TotalLines s2) \<and>
   (wellformed l \<longrightarrow> (\<exists>s3. Update l c s = Some s3))"
proof (intro conjI impI)
  assume u: "Update l c stats0 = Some s'"
  then obtain t' where sc: "scan l c (scanner0, stats0\<lparr>FileCount := FileCount stats0 + 1\<rparr>) = Some (t', s')"
    by (auto simp: Update_def)
  have "sum_ok (stats0\<lparr>FileCount := FileCount stats0 + 1\<rparr>)"
    by (simp add: sum_ok_def stats0_def)
  from scan_sum_ok [OF sc this]
  show "CodeLines s' + CommentLines s' + BlankLines s' = TotalLines s'"
    by (simp add: sum_ok_def)
  from scan_total [OF sc] show tot: "TotalLines s' = of_nat (count_nl c)"
    by (simp add: stats0_def)
  assume "length c < 2 ^ 63"
  moreover have "count_nl c \<le> length c" by (simp add: count_nl_def)
  ultimately have "count_nl c < 2 ^ 63" by simp
  with tot show "sint (TotalLines s') = int (count_nl c)"
    by (simp add: sint_of_nat_small)
next
  assume a: "CodeLines s + CommentLines s + BlankLines s = TotalLines s \<and> Update l c s = Some s2"
  then obtain t' where sc: "scan l c (scanner0, s\<lparr>FileCount := FileCount s + 1\<rparr>) = Some (t', s2)"
    by (auto simp: Update_def)
  from a have "sum_ok (s\<lparr>FileCount := FileCount s + 1\<rparr>)"
    by (simp add: sum_ok_def)
  from scan_sum_ok [OF sc this]
  show "CodeLines s2 + CommentLines s2 + BlankLines s2 = TotalLines s2"
    by (simp add: sum_ok_def)
next
  assume "wellformed l"
  then show "\<exists>s3. Update l c s = Some s3" by (rule Update_ok)
qed

theorem update_line_totals_witness:
  "Update cComments (''x;'' @ [CHR 0x0A] @ ''y'') stats0 =
     Some \<lparr>FileCount = 1, TotalLines = 1, CodeLines = 1, BlankLines = 0, CommentLines = 0\<rparr> \<and>
   length (''x;'' @ [CHR 0x0A] @ ''y'') < 2 ^ 63 \<and> wellformed cComments \<and>
   sint (1 :: go_int) = int (count_nl (''x;'' @ [CHR 0x0A] @ ''y'')) \<and>
   (\<exists>s3. Update cComments (''x;'' @ [CHR 0x0A] @ ''y'')
      \<lparr>FileCount = 1, TotalLines = 1, CodeLines = 1, BlankLines = 0, CommentLines = 0\<rparr> = Some s3 \<and>
      CodeLines s3 + CommentLines s3 + BlankLines s3 = TotalLines s3)"
proof -
  let ?c = "''x;'' @ [CHR 0x0A] @ ''y''"
  let ?r = "\<lparr>FileCount = 1, TotalLines = 1, CodeLines = 1, BlankLines = 0, CommentLines = 0\<rparr> :: stats"
  have u: "Update cComments ?c stats0 = Some ?r"
    by (simp add: run_defs cComments_def)
  have n: "length ?c < 2 ^ 63" by simp
  have w: "wellformed cComments" by (simp add: wellformed_def cComments_def)
  from update_line_totals [of cComments ?c ?r] u n
  have k: "sint (1 :: go_int) = int (count_nl ?c)" by simp
  from update_line_totals [of cComments ?c ?r ?r] w obtain s3
    where s3: "Update cComments ?c ?r = Some s3" by blast
  have "CodeLines ?r + CommentLines ?r + BlankLines ?r = TotalLines ?r" by simp
  with update_line_totals [of cComments ?c ?r ?r s3] s3
  have "CodeLines s3 + CommentLines s3 + BlankLines s3 = TotalLines s3" by blast
  with u n w k s3 show ?thesis by blast
qed

text \<open>
  C2 (as amended). Whenever the current byte does not match the next expected byte of a
  token, that token's cursor is reset to 0 and nothing else of the state changes: the
  byte is consumed, it is not compared against the token's first byte, and matching
  starts again with the next byte. For the line token \<open>ab\<close> the input \<open>aab\<close> produces no
  match; the input \<open>ab\<close> does.
\<close>

theorem mismatch_resets_cursor:
  "(inComment t = 0 \<and> lp t < length (LineComment l) \<and> b \<noteq> LineComment l ! lp t \<longrightarrow>
      matchLine l b t = Some (t\<lparr>lp := 0\<rparr>)) \<and>
   (\<not> inLComment t \<and> sp t < length (StartComment l) \<and> b \<noteq> StartComment l ! sp t \<longrightarrow>
      matchStart l b t = Some (t\<lparr>sp := 0\<rparr>)) \<and>
   (\<not> inLComment t \<and> inComment t > 0 \<and> ep t < length (EndComment l) \<and>
      b \<noteq> EndComment l ! ep t \<longrightarrow>
      matchEnd l b t = Some (t\<lparr>ep := 0\<rparr>)) \<and>
   scan \<lparr>LineComment = ''ab'', StartComment = [NUL], EndComment = [NUL], Nesting = False\<rparr>
     ''aab'' (scanner0, stats0) = Some (scanner0\<lparr>blank := False\<rparr>, stats0) \<and>
   scan \<lparr>LineComment = ''ab'', StartComment = [NUL], EndComment = [NUL], Nesting = False\<rparr>
     ''ab'' (scanner0, stats0) = Some (scanner0\<lparr>blank := False, inLComment := True\<rparr>, stats0)"
  by (simp add: matchLine_def matchStart_def matchEnd_def index_def body_def markBlank_def
      isSpace_def scanner0_def NUL_def)

theorem mismatch_resets_cursor_witness:
  "matchLine cComments CHR ''/'' (scanner0\<lparr>lp := 1\<rparr>) = Some (scanner0\<lparr>inLComment := True\<rparr>) \<and>
   matchLine cComments CHR ''x'' (scanner0\<lparr>lp := 1\<rparr>) = Some scanner0 \<and>
   matchStart cComments CHR ''/'' (scanner0\<lparr>sp := 1\<rparr>) = Some scanner0 \<and>
   matchEnd cComments CHR ''*'' (scanner0\<lparr>inComment := 1, ep := 1\<rparr>) =
     Some (scanner0\<lparr>inComment := 1\<rparr>)"
proof -
  have 1: "matchLine cComments CHR ''/'' (scanner0\<lparr>lp := 1\<rparr>) = Some (scanner0\<lparr>inLComment := True\<rparr>)"
    by (simp add: matchLine_def index_def cComments_def scanner0_def)
  have h: "inComment (scanner0\<lparr>lp := 1\<rparr>) = 0" "lp (scanner0\<lparr>lp := 1\<rparr>) < length (LineComment cComments)"
    "CHR ''x'' \<noteq> LineComment cComments ! lp (scanner0\<lparr>lp := 1\<rparr>)"
    "\<not> inLComment (scanner0\<lparr>sp := 1\<rparr>)" "sp (scanner0\<lparr>sp := 1\<rparr>) < length (StartComment cComments)"
    "CHR ''/'' \<noteq> StartComment cComments ! sp (scanner0\<lparr>sp := 1\<rparr>)"
    "\<not> inLComment (scanner0\<lparr>inComment := 1, ep := 1\<rparr>)" "inComment (scanner0\<lparr>inComment := 1, ep := 1\<rparr>) > 0"
    "ep (scanner0\<lparr>inComment := 1, ep := 1\<rparr>) < length (EndComment cComments)"
    "CHR ''*'' \<noteq> EndComment cComments ! ep (scanner0\<lparr>inComment := 1, ep := 1\<rparr>)"
    by (simp_all add: scanner0_def cComments_def)
  from mismatch_resets_cursor [of "scanner0\<lparr>lp := 1\<rparr>" cComments "CHR ''x''"] h(1-3)
  have 2: "matchLine cComments CHR ''x'' (scanner0\<lparr>lp := 1\<rparr>) = Some scanner0"
    by (simp add: scanner0_def)
  from mismatch_resets_cursor [of "scanner0\<lparr>sp := 1\<rparr>" cComments "CHR ''/''"] h(4-6)
  have 3: "matchStart cComments CHR ''/'' (scanner0\<lparr>sp := 1\<rparr>) = Some scanner0"
    by (simp add: scanner0_def)
  from mismatch_resets_cursor [of "scanner0\<lparr>inComment := 1, ep := 1\<rparr>" cComments "CHR ''*''"] h(7-10)
  have 4: "matchEnd cComments CHR ''*'' (scanner0\<lparr>inComment := 1, ep := 1\<rparr>) =
     Some (scanner0\<lparr>inComment := 1\<rparr>)"
    by (simp add: scanner0_def)
  from 1 2 3 4 show ?thesis by blast
qed

text \<open>
  The claim as stated fails: with the token \<open>ab\<close> as line token, or as block start, the
  input \<open>aab\<close> ends with no match; and at cursor 1 the byte \<open>a\<close>, the first byte of the
  token, leaves the cursor at 0, not at 1.
\<close>

theorem restart_counterexample:
  "scan \<lparr>LineComment = ''ab'', StartComment = [NUL], EndComment = [NUL], Nesting = False\<rparr>
     ''aab'' (scanner0, stats0) =
     Some (\<lparr>inComment = 0, inLComment = False, blank = False, lp = 0, sp = 0, ep = 0\<rparr>, stats0) \<and>
   scan \<lparr>LineComment = [NUL], StartComment = ''ab'', EndComment = [NUL], Nesting = False\<rparr>
     ''aab'' (scanner0, stats0) =
     Some (\<lparr>inComment = 0, inLComment = False, blank = False, lp = 0, sp = 0, ep = 0\<rparr>, stats0) \<and>
   matchLine \<lparr>LineComment = ''ab'', StartComment = [NUL], EndComment = [NUL], Nesting = False\<rparr>
     CHR ''a'' \<lparr>inComment = 0, inLComment = False, blank = False, lp = 1, sp = 0, ep = 0\<rparr> =
     Some \<lparr>inComment = 0, inLComment = False, blank = False, lp = 0, sp = 0, ep = 0\<rparr>"
  by (simp add: run_defs NUL_def)

text \<open>
  C3. The input of the claim, four lines forming one block comment, under the C-style
  description and from the zero accumulator. The code counts the line that holds the
  closing \<open>*/\<close> as code: 3 comment lines and 1 code line, where the claim has 4 and 0.
\<close>

theorem block_comment_spanning_lines_code:
  "Update cComments (''/*'' @ [CHR 0x0A] @ ''a'' @ [CHR 0x0A] @ ''b'' @ [CHR 0x0A] @ ''*/'' @ [CHR 0x0A]) stats0 =
     Some \<lparr>FileCount = 1, TotalLines = 4, CodeLines = 1, BlankLines = 0, CommentLines = 3\<rparr>"
  by (simp add: run_defs cComments_def)



text \<open>
  C5. Only lines terminated by a newline byte are tallied. Every input splits into
  \<open>fullLines c\<close>, which is empty or ends with a newline, and a rest without newline; a
  scan of the whole input and a scan of \<open>fullLines c\<close> alone end with the same counters.
  For a well-formed description both scans return.
\<close>

theorem update_ignores_partial_line:
  "(\<exists>r. c = fullLines c @ r \<and> CHR 0x0A \<notin> set r) \<and>
   (fullLines c = [] \<or> last (fullLines c) = CHR 0x0A) \<and>
   (Update l c s = Some s' \<longrightarrow> Update l (fullLines c) s = Some s') \<and>
   (wellformed l \<longrightarrow> (\<exists>s2. Update l c s = Some s2 \<and> Update l (fullLines c) s = Some s2))"
proof -
  obtain r where r: "c = fullLines c @ r" "CHR 0x0A \<notin> set r"
    using fullLines_split by blast
  have p: "Update l (fullLines c) s = Some x" if "Update l c s = Some x" for x
  proof -
    from that r(1) have "Update l (fullLines c @ r) s = Some x" by simp
    then show ?thesis using r(2) by (rule Update_prefix)
  qed
  have "\<exists>s2. Update l c s = Some s2 \<and> Update l (fullLines c) s = Some s2" if "wellformed l"
  proof -
    from Update_ok [OF that] obtain s2 where "Update l c s = Some s2" by blast
    with p show ?thesis by blast
  qed
  with r p fullLines_last show ?thesis by blast
qed

theorem update_ignores_partial_line_witness:
  "Update cComments (''a'' @ [CHR 0x0A] @ ''b // c'') stats0 =
     Some \<lparr>FileCount = 1, TotalLines = 1, CodeLines = 1, BlankLines = 0, CommentLines = 0\<rparr> \<and>
   wellformed cComments \<and>
   fullLines (''a'' @ [CHR 0x0A] @ ''b // c'') = ''a'' @ [CHR 0x0A] \<and>
   Update cComments (''a'' @ [CHR 0x0A]) stats0 =
     Some \<lparr>FileCount = 1, TotalLines = 1, CodeLines = 1, BlankLines = 0, CommentLines = 0\<rparr>"
proof -
  let ?c = "''a'' @ [CHR 0x0A] @ ''b // c''"
  let ?r = "\<lparr>FileCount = 1, TotalLines = 1, CodeLines = 1, BlankLines = 0, CommentLines = 0\<rparr> :: stats"
  have u: "Update cComments ?c stats0 = Some ?r"
    by (simp add: run_defs cComments_def)
  have w: "wellformed cComments" by (simp add: wellformed_def cComments_def)
  have f: "fullLines ?c = ''a'' @ [CHR 0x0A]" by (simp add: fullLines_def)
  from update_ignores_partial_line [of ?c cComments stats0 ?r] u
  have "Update cComments (fullLines ?c) stats0 = Some ?r" by blast
  with u w f show ?thesis by simp
qed

text \<open>
  C6. Nesting. On the input \<open>{- {- -} -}\<close> followed by a newline, with the tokens
  \<open>--\<close>, \<open>{-\<close>, \<open>-}\<close>: when nesting is enabled the depth after each byte goes
  0, 1, 2, 1, 0 and is positive until the last byte of the final \<open>-}\<close>; when nesting is
  disabled the depth returns to 0 at the first \<open>-}\<close>. For every well-formed description
  without nesting and every input, the depth is 0 or 1 after every byte.
\<close>

theorem nesting_policy:
  "depths hsComments (''{- {- -} -}'' @ [CHR 0x0A]) = [0, 1, 1, 1, 2, 2, 2, 1, 1, 1, 0, 0] \<and>
   depths (hsComments\<lparr>Nesting := False\<rparr>) (''{- {- -} -}'' @ [CHR 0x0A]) =
     [0, 1, 1, 1, 1, 1, 1, 0, 0, 0, 0, 0] \<and>
   (wellformed l \<and> \<not> Nesting l \<longrightarrow> (\<forall>d \<in> set (depths l c). 0 \<le> d \<and> d \<le> 1))"
proof (intro conjI impI)
  show "depths hsComments (''{- {- -} -}'' @ [CHR 0x0A]) = [0, 1, 1, 1, 2, 2, 2, 1, 1, 1, 0, 0]"
    by (simp add: depths_def run_defs hsComments_def)
  show "depths (hsComments\<lparr>Nesting := False\<rparr>) (''{- {- -} -}'' @ [CHR 0x0A]) =
     [0, 1, 1, 1, 1, 1, 1, 0, 0, 0, 0, 0]"
    by (simp add: depths_def run_defs hsComments_def)
next
  assume a: "wellformed l \<and> \<not> Nesting l"
  then have c: "cursors_ok l scanner0" by (simp add: scanner0_ok)
  have "inComment scanner0 \<le> 1" by (simp add: scanner0_def)
  from trace_clamped [OF c _ this, of c stats0] a
  have 1: "\<forall>ts \<in> set (trace l c (scanner0, stats0)). inComment (fst ts) \<le> 1" by blast
  from trace_ok [OF c, of c stats0]
  have 2: "\<forall>ts \<in> set (trace l c (scanner0, stats0)). 0 \<le> inComment (fst ts)"
    by (simp add: cursors_ok_def)
  from 1 2 show "\<forall>d \<in> set (depths l c). 0 \<le> d \<and> d \<le> 1"
    by (auto simp: depths_def)
qed

theorem nesting_policy_witness:
  "wellformed cComments \<and> \<not> Nesting cComments \<and>
   depths cComments ''/* /* x'' = [0, 1, 1, 1, 1, 1, 1] \<and>
   list_all (\<lambda>d. 0 \<le> d \<and> d \<le> 1) (depths cComments ''/* /* x'')"
proof -
  have w: "wellformed cComments \<and> \<not> Nesting cComments"
    by (simp add: wellformed_def cComments_def)
  have d: "depths cComments ''/* /* x'' = [0, 1, 1, 1, 1, 1, 1]"
    by (simp add: depths_def run_defs cComments_def)
  from nesting_policy [of cComments "''/* /* x''"] w
  have "\<forall>d \<in> set (depths cComments ''/* /* x''). 0 \<le> d \<and> d \<le> 1" by blast
  then have "list_all (\<lambda>d. 0 \<le> d \<and> d \<le> 1) (depths cComments ''/* /* x'')"
    by (simp add: list_all_iff)
  with w d show ?thesis by blast
qed

text \<open>
  C7. Update is total on well-formed descriptions (no token empty): for every input
  the scan returns, it completes one iteration per input byte, and before the first
  byte and after every iteration each cursor is an index into its token and the depth
  is not negative. The index expressions of an iteration read the cursors of the state
  before it, so each of them is in range.
\<close>

theorem update_total:
  "wellformed l \<Longrightarrow>
     (\<exists>s'. Update l c s = Some s') \<and>
     cursors_ok l scanner0 \<and>
     length (trace l c (scanner0, s\<lparr>FileCount := FileCount s + 1\<rparr>)) = length c \<and>
     (\<forall>ts \<in> set (trace l c (scanner0, s\<lparr>FileCount := FileCount s + 1\<rparr>)). cursors_ok l (fst ts))"
  using Update_ok [of l c s] scanner0_ok [of l]
    trace_ok [of l scanner0 c "s\<lparr>FileCount := FileCount s + 1\<rparr>"]
  by blast

theorem update_total_witness:
  "wellformed hsComments \<and>
   Update hsComments (''{- -} x'' @ [CHR 0x0A]) stats0 =
     Some \<lparr>FileCount = 1, TotalLines = 1, CodeLines = 1, BlankLines = 0, CommentLines = 0\<rparr> \<and>
   map (\<lambda>ts. (lp (fst ts), sp (fst ts), ep (fst ts), inComment (fst ts)))
     (trace hsComments (''{- -} x'' @ [CHR 0x0A]) (scanner0, stats0\<lparr>FileCount := FileCount stats0 + 1\<rparr>)) =
     [(0, 1, 0, 0), (1, 0, 1, 1), (0, 0, 0, 1), (0, 0, 1, 1), (0, 0, 0, 0), (0, 0, 0, 0),
      (0, 0, 0, 0), (0, 0, 0, 0)] \<and>
   list_all (\<lambda>ts. cursors_ok hsComments (fst ts))
     (trace hsComments (''{- -} x'' @ [CHR 0x0A])
       (scanner0, stats0\<lparr>FileCount := FileCount stats0 + 1\<rparr>))"
proof -
  let ?c = "''{- -} x'' @ [CHR 0x0A]"
  have w: "wellformed hsComments" by (simp add: wellformed_def hsComments_def)
  have u: "Update hsComments ?c stats0 =
     Some \<lparr>FileCount = 1, TotalLines = 1, CodeLines = 1, BlankLines = 0, CommentLines = 0\<rparr>"
    by (simp add: run_defs hsComments_def)
  have t: "map (\<lambda>ts. (lp (fst ts), sp (fst ts), ep (fst ts), inComment (fst ts)))
     (trace hsComments ?c (scanner0, stats0\<lparr>FileCount := FileCount stats0 + 1\<rparr>)) =
     [(0, 1, 0, 0), (1, 0, 1, 1), (0, 0, 0, 1), (0, 0, 1, 1), (0, 0, 0, 0), (0, 0, 0, 0),
      (0, 0, 0, 0), (0, 0, 0, 0)]"
    by (simp add: run_defs hsComments_def)
  from update_total [OF w, of ?c stats0]
  have "\<forall>ts \<in> set (trace hsComments ?c (scanner0, stats0\<lparr>FileCount := FileCount stats0 + 1\<rparr>)).
          cursors_ok hsComments (fst ts)"
    by blast
  then have "list_all (\<lambda>ts. cursors_ok hsComments (fst ts))
     (trace hsComments ?c (scanner0, stats0\<lparr>FileCount := FileCount stats0 + 1\<rparr>))"
    by (simp add: list_all_iff)
  with u t w show ?thesis by blast
qed

text \<open>
  C8 (as amended). Accumulation does not depend on the order of the files: scanning
  \<open>A\<close> then \<open>B\<close> on an accumulator ends with the same counters as scanning \<open>B\<close> then
  \<open>A\<close> (and both return for a well-formed description). \<open>Add\<close> sets each of the five
  counters of the receiver to the sum of that counter in the receiver and in the
  argument, and keeps the receiver's \<open>Name\<close>. So \<open>Add\<close> is associative; merging \<open>x\<close> then
  \<open>y\<close> into a row gives the same row as merging \<open>y\<close> then \<open>x\<close>; and \<open>Add x y\<close> and
  \<open>Add y x\<close> have the same five counters and differ in \<open>Name\<close> alone: they are equal
  when \<open>x\<close> and \<open>y\<close> have the same name.
\<close>

theorem accumulation_order_independent:
  "Option.bind (Update l A s) (Update l B) = Option.bind (Update l B s) (Update l A) \<and>
   (wellformed l \<longrightarrow> (\<exists>s'. Option.bind (Update l A s) (Update l B) = Some s')) \<and>
   lresult.FileCount (Add x y) = lresult.FileCount x + lresult.FileCount y \<and>
   lresult.CodeLines (Add x y) = lresult.CodeLines x + lresult.CodeLines y \<and>
   lresult.CommentLines (Add x y) = lresult.CommentLines x + lresult.CommentLines y \<and>
   lresult.BlankLines (Add x y) = lresult.BlankLines x + lresult.BlankLines y \<and>
   lresult.TotalLines (Add x y) = lresult.TotalLines x + lresult.TotalLines y \<and>
   Name (Add x y) = Name x \<and>
   lresult.FileCount (Add x y) = lresult.FileCount (Add y x) \<and>
   lresult.CodeLines (Add x y) = lresult.CodeLines (Add y x) \<and>
   lresult.CommentLines (Add x y) = lresult.CommentLines (Add y x) \<and>
   lresult.BlankLines (Add x y) = lresult.BlankLines (Add y x) \<and>
   lresult.TotalLines (Add x y) = lresult.TotalLines (Add y x) \<and>
   Add x y = (Add y x)\<lparr>Name := Name x\<rparr> \<and>
   (Name x = Name y \<longrightarrow> Add x y = Add y x) \<and>
   Add (Add r x) y = Add (Add r y) x \<and>
   Add (Add r x) y = Add r (Add x y)"
proof -
  have 1: "Option.bind (Update l A s) (Update l B) = Option.bind (Update l B s) (Update l A)"
  proof (cases "Update l A stats0")
    case None
    then have a: "Update l A s' = None" for s' by (simp add: Update_delta [of l A s'])
    then show ?thesis by (cases "Update l B s") simp_all
  next
    case A: (Some dA)
    show ?thesis
    proof (cases "Update l B stats0")
      case None
      then have "Update l B s' = None" for s' by (simp add: Update_delta [of l B s'])
      then show ?thesis by (cases "Update l A s") simp_all
    next
      case B: (Some dB)
      have "Update l A s' = Some (stats_plus dA s')" for s'
        using A by (simp add: Update_delta [of l A s'])
      moreover have "Update l B s' = Some (stats_plus dB s')" for s'
        using B by (simp add: Update_delta [of l B s'])
      ultimately show ?thesis by (simp add: stats_plus_commute)
    qed
  qed
  have 2: "\<exists>s'. Option.bind (Update l A s) (Update l B) = Some s'" if "wellformed l"
  proof -
    from Update_ok [OF that] obtain s1 where s1: "Update l A s = Some s1" by blast
    from Update_ok [OF that] obtain s2 where "Update l B s1 = Some s2" by blast
    with s1 show ?thesis by simp
  qed
  have 3: "Add (Add r x) y = Add (Add r y) x"
    by (simp add: Add_def algebra_simps)
  have 4: "Add (Add r x) y = Add r (Add x y)"
    by (simp add: Add_def algebra_simps)
  have 5: "Add x y = (Add y x)\<lparr>Name := Name x\<rparr>"
    by (simp add: Add_def algebra_simps)
  have 6: "Add x y = Add y x" if "Name x = Name y"
    using that by (simp add: Add_def algebra_simps)
  from 1 2 3 4 5 6 show ?thesis by (simp add: Add_counts algebra_simps)
qed

theorem accumulation_order_independent_witness:
  "wellformed cComments \<and>
   Option.bind (Update cComments (''x'' @ [CHR 0x0A]) stats0) (Update cComments (''// y'' @ [CHR 0x0A])) =
     Some \<lparr>FileCount = 2, TotalLines = 2, CodeLines = 1, BlankLines = 0, CommentLines = 1\<rparr> \<and>
   Option.bind (Update cComments (''// y'' @ [CHR 0x0A]) stats0) (Update cComments (''x'' @ [CHR 0x0A])) =
     Some \<lparr>FileCount = 2, TotalLines = 2, CodeLines = 1, BlankLines = 0, CommentLines = 1\<rparr> \<and>
   Add (row ''Total'' \<lparr>FileCount = 1, TotalLines = 7, CodeLines = 4, BlankLines = 2, CommentLines = 1\<rparr>)
       (row ''Go'' \<lparr>FileCount = 2, TotalLines = 9, CodeLines = 5, BlankLines = 1, CommentLines = 3\<rparr>) =
     row ''Total'' \<lparr>FileCount = 3, TotalLines = 16, CodeLines = 9, BlankLines = 3, CommentLines = 4\<rparr> \<and>
   Add (row ''Go'' \<lparr>FileCount = 2, TotalLines = 9, CodeLines = 5, BlankLines = 1, CommentLines = 3\<rparr>)
       (row ''Total'' \<lparr>FileCount = 1, TotalLines = 7, CodeLines = 4, BlankLines = 2, CommentLines = 1\<rparr>) =
     row ''Go'' \<lparr>FileCount = 3, TotalLines = 16, CodeLines = 9, BlankLines = 3, CommentLines = 4\<rparr> \<and>
   Name (row ''Go'' \<lparr>FileCount = 1, TotalLines = 7, CodeLines = 4, BlankLines = 2, CommentLines = 1\<rparr>) =
     Name (row ''Go'' \<lparr>FileCount = 2, TotalLines = 9, CodeLines = 5, BlankLines = 1, CommentLines = 3\<rparr>) \<and>
   Add (row ''Go'' \<lparr>FileCount = 1, TotalLines = 7, CodeLines = 4, BlankLines = 2, CommentLines = 1\<rparr>)
       (row ''Go'' \<lparr>FileCount = 2, TotalLines = 9, CodeLines = 5, BlankLines = 1, CommentLines = 3\<rparr>) =
     Add (row ''Go'' \<lparr>FileCount = 2, TotalLines = 9, CodeLines = 5, BlankLines = 1, CommentLines = 3\<rparr>)
       (row ''Go'' \<lparr>FileCount = 1, TotalLines = 7, CodeLines = 4, BlankLines = 2, CommentLines = 1\<rparr>)"
proof -
  let ?A = "''x'' @ [CHR 0x0A]" and ?B = "''// y'' @ [CHR 0x0A]"
  let ?T = "row ''Total'' \<lparr>FileCount = 1, TotalLines = 7, CodeLines = 4, BlankLines = 2, CommentLines = 1\<rparr>"
  let ?G = "row ''Go'' \<lparr>FileCount = 2, TotalLines = 9, CodeLines = 5, BlankLines = 1, CommentLines = 3\<rparr>"
  let ?H = "row ''Go'' \<lparr>FileCount = 1, TotalLines = 7, CodeLines = 4, BlankLines = 2, CommentLines = 1\<rparr>"
  have w: "wellformed cComments" by (simp add: wellformed_def cComments_def)
  have 1: "Option.bind (Update cComments ?A stats0) (Update cComments ?B) =
     Some \<lparr>FileCount = 2, TotalLines = 2, CodeLines = 1, BlankLines = 0, CommentLines = 1\<rparr>"
    by (simp add: run_defs cComments_def)
  from accumulation_order_independent [of cComments ?A stats0 ?B] 1
  have 2: "Option.bind (Update cComments ?B stats0) (Update cComments ?A) =
     Some \<lparr>FileCount = 2, TotalLines = 2, CodeLines = 1, BlankLines = 0, CommentLines = 1\<rparr>"
    by simp
  from accumulation_order_independent [of _ _ _ _ ?T ?G]
  have f:
    "lresult.FileCount (Add ?T ?G) = lresult.FileCount ?T + lresult.FileCount ?G"
    "lresult.CodeLines (Add ?T ?G) = lresult.CodeLines ?T + lresult.CodeLines ?G"
    "lresult.CommentLines (Add ?T ?G) = lresult.CommentLines ?T + lresult.CommentLines ?G"
    "lresult.BlankLines (Add ?T ?G) = lresult.BlankLines ?T + lresult.BlankLines ?G"
    "lresult.TotalLines (Add ?T ?G) = lresult.TotalLines ?T + lresult.TotalLines ?G"
    "Name (Add ?T ?G) = Name ?T"
    by blast+
  have 3: "Add ?T ?G =
     row ''Total'' \<lparr>FileCount = 3, TotalLines = 16, CodeLines = 9, BlankLines = 3, CommentLines = 4\<rparr>"
    by (rule lresult.equality) (simp_all add: f, simp_all add: row_def)
  from accumulation_order_independent [of _ _ _ _ ?G ?T]
  have g:
    "lresult.FileCount (Add ?G ?T) = lresult.FileCount ?G + lresult.FileCount ?T"
    "lresult.CodeLines (Add ?G ?T) = lresult.CodeLines ?G + lresult.CodeLines ?T"
    "lresult.CommentLines (Add ?G ?T) = lresult.CommentLines ?G + lresult.CommentLines ?T"
    "lresult.BlankLines (Add ?G ?T) = lresult.BlankLines ?G + lresult.BlankLines ?T"
    "lresult.TotalLines (Add ?G ?T) = lresult.TotalLines ?G + lresult.TotalLines ?T"
    "Name (Add ?G ?T) = Name ?G"
    by blast+
  have 4: "Add ?G ?T =
     row ''Go'' \<lparr>FileCount = 3, TotalLines = 16, CodeLines = 9, BlankLines = 3, CommentLines = 4\<rparr>"
    by (rule lresult.equality) (simp_all add: g, simp_all add: row_def)
  have n: "Name ?H = Name ?G" by (simp add: row_def)
  from accumulation_order_independent [of _ _ _ _ ?H ?G] n
  have 5: "Add ?H ?G = Add ?G ?H" by blast
  from w 1 2 3 4 n 5 show ?thesis by blast
qed

text \<open>
  The claim as stated fails for \<open>Add\<close>: for two rows with different names, \<open>Add x y\<close> is
  the row named as \<open>x\<close> and \<open>Add y x\<close> the row named as \<open>y\<close>.
\<close>

theorem add_swap_counterexample:
  "Add (row ''C'' \<lparr>FileCount = 1, TotalLines = 7, CodeLines = 4, BlankLines = 2, CommentLines = 1\<rparr>)
       (row ''Go'' \<lparr>FileCount = 2, TotalLines = 9, CodeLines = 5, BlankLines = 1, CommentLines = 3\<rparr>) \<noteq>
   Add (row ''Go'' \<lparr>FileCount = 2, TotalLines = 9, CodeLines = 5, BlankLines = 1, CommentLines = 3\<rparr>)
       (row ''C'' \<lparr>FileCount = 1, TotalLines = 7, CodeLines = 4, BlankLines = 2, CommentLines = 1\<rparr>)"
  by (simp add: Add_def row_def)

text \<open>
  C9 (as amended). The presentation order sorts the rows by code-line count descending,
  with ties broken by name descending: \<open>Less\<close> holds between two rows when the first has
  more code lines, or as many and the lexicographically greater name. So in every list
  that \<^verbatim>\<open>sort.Sort\<close> may return, an earlier row has at least as many code lines as a later
  one, and of two rows with equal \<open>CodeLines\<close> the one with the greater \<open>Name\<close> comes
  first. The order is deterministic: when the names are distinct, any two sorted
  permutations of the same rows are the same list, whatever the order the rows were
  collected in.
\<close>

theorem presentation_order:
  "(rowLess x y \<longleftrightarrow>
      sint (lresult.CodeLines x) > sint (lresult.CodeLines y) \<or>
      (lresult.CodeLines x = lresult.CodeLines y \<and> Name x > Name y)) \<and>
   (inOrder out \<and> i < j \<and> j < length out \<longrightarrow>
      sint (lresult.CodeLines (out ! i)) \<ge> sint (lresult.CodeLines (out ! j)) \<and>
      (lresult.CodeLines (out ! i) = lresult.CodeLines (out ! j) \<longrightarrow>
         Name (out ! i) \<ge> Name (out ! j))) \<and>
   (distinct (map Name d) \<and> sortResult d out1 \<and> sortResult d out2 \<longrightarrow> out1 = out2)"
proof (intro conjI impI)
  show "rowLess x y \<longleftrightarrow>
      sint (lresult.CodeLines x) > sint (lresult.CodeLines y) \<or>
      (lresult.CodeLines x = lresult.CodeLines y \<and> Name x > Name y)"
    by (rule rowLess_iff)
next
  assume a: "inOrder out \<and> i < j \<and> j < length out"
  then have n: "\<not> rowLess (out ! j) (out ! i)"
    by (simp add: inOrder_def sorted_wrt_iff_nth_less)
  then show "sint (lresult.CodeLines (out ! i)) \<ge> sint (lresult.CodeLines (out ! j))"
    by (auto simp: rowLess_iff)
  assume "lresult.CodeLines (out ! i) = lresult.CodeLines (out ! j)"
  with n show "Name (out ! i) \<ge> Name (out ! j)"
    by (auto simp: rowLess_iff)
next
  assume a: "distinct (map Name d) \<and> sortResult d out1 \<and> sortResult d out2"
  then have s: "sorted_wrt (\<lambda>x y. \<not> rowLess y x) out1" "sorted_wrt (\<lambda>x y. \<not> rowLess y x) out2"
    and m: "mset out1 = mset d" "mset out2 = mset d"
    by (simp_all add: sortResult_def inOrder_def)
  from a have inj: "inj_on Name (set d)" by (simp add: distinct_map)
  from m(1) have set1: "set out1 = set d" by (metis set_mset_mset)
  show "out1 = out2"
  proof (rule sorted_wrt_mset_unique [OF _ s])
    fix x y assume xy: "x \<in> set out1" "y \<in> set out1" "\<not> rowLess y x" "\<not> rowLess x y"
    with rowLess_total [of x y] have "Name x = Name y" by blast
    with inj xy(1,2) set1 show "x = y" by (auto dest: inj_onD)
  next
    from m show "mset out1 = mset out2" by simp
  qed
qed

theorem presentation_order_witness:
  "inOrder [(row ''Go'' \<lparr>FileCount = 2, TotalLines = 7, CodeLines = 5, BlankLines = 2, CommentLines = 0\<rparr>),
            (row ''C'' \<lparr>FileCount = 1, TotalLines = 5, CodeLines = 5, BlankLines = 0, CommentLines = 0\<rparr>)] \<and>
   sortResult [(row ''C'' \<lparr>FileCount = 1, TotalLines = 5, CodeLines = 5, BlankLines = 0, CommentLines = 0\<rparr>),
               (row ''Go'' \<lparr>FileCount = 2, TotalLines = 7, CodeLines = 5, BlankLines = 2, CommentLines = 0\<rparr>)]
     [(row ''Go'' \<lparr>FileCount = 2, TotalLines = 7, CodeLines = 5, BlankLines = 2, CommentLines = 0\<rparr>),
      (row ''C'' \<lparr>FileCount = 1, TotalLines = 5, CodeLines = 5, BlankLines = 0, CommentLines = 0\<rparr>)] \<and>
   distinct (map Name [(row ''C'' \<lparr>FileCount = 1, TotalLines = 5, CodeLines = 5, BlankLines = 0, CommentLines = 0\<rparr>),
                       (row ''Go'' \<lparr>FileCount = 2, TotalLines = 7, CodeLines = 5, BlankLines = 2, CommentLines = 0\<rparr>)]) \<and>
   lresult.CodeLines (row ''Go'' \<lparr>FileCount = 2, TotalLines = 7, CodeLines = 5, BlankLines = 2, CommentLines = 0\<rparr>) =
     lresult.CodeLines (row ''C'' \<lparr>FileCount = 1, TotalLines = 5, CodeLines = 5, BlankLines = 0, CommentLines = 0\<rparr>) \<and>
   Name (row ''Go'' \<lparr>FileCount = 2, TotalLines = 7, CodeLines = 5, BlankLines = 2, CommentLines = 0\<rparr>) \<ge>
     Name (row ''C'' \<lparr>FileCount = 1, TotalLines = 5, CodeLines = 5, BlankLines = 0, CommentLines = 0\<rparr>)"
proof -
  let ?C = "row ''C'' \<lparr>FileCount = 1, TotalLines = 5, CodeLines = 5, BlankLines = 0, CommentLines = 0\<rparr>"
  let ?G = "row ''Go'' \<lparr>FileCount = 2, TotalLines = 7, CodeLines = 5, BlankLines = 2, CommentLines = 0\<rparr>"
  have o: "inOrder [?G, ?C]" by (simp add: inOrder_def rowLess_def row_def)
  have s: "sortResult [?C, ?G] [?G, ?C]" by (simp add: sortResult_def o)
  have d: "distinct (map Name [?C, ?G])" by (simp add: row_def)
  have e: "lresult.CodeLines ([?G, ?C] ! 0) = lresult.CodeLines ([?G, ?C] ! 1)"
    by (simp add: row_def)
  have i: "(0::nat) < 1 \<and> 1 < length [?G, ?C]" by simp
  from presentation_order [of _ _ "[?G, ?C]" 0 1] o i e
  have n: "Name ([?G, ?C] ! 0) \<ge> Name ([?G, ?C] ! 1)" by blast
  from presentation_order [of _ _ _ _ _ "[?C, ?G]" "[?G, ?C]" "[?G, ?C]"] d s
  have "[?G, ?C] = [?G, ?C]" by blast
  with o s d e n show ?thesis by simp
qed

text \<open>
  The claim as stated fails: of two rows with 5 code lines each, named \<open>C\<close> and \<open>Go\<close>,
  \<open>Less\<close> puts \<open>Go\<close> before \<open>C\<close>; the list with the smaller name first is not a result of
  the sort, the list with the greater name first is.
\<close>

theorem name_ascending_counterexample:
  "Less [(row ''C'' \<lparr>FileCount = 1, TotalLines = 5, CodeLines = 5, BlankLines = 0, CommentLines = 0\<rparr>),
         (row ''Go'' \<lparr>FileCount = 2, TotalLines = 7, CodeLines = 5, BlankLines = 2, CommentLines = 0\<rparr>)] 1 0 = Some True \<and>
   Less [(row ''C'' \<lparr>FileCount = 1, TotalLines = 5, CodeLines = 5, BlankLines = 0, CommentLines = 0\<rparr>),
         (row ''Go'' \<lparr>FileCount = 2, TotalLines = 7, CodeLines = 5, BlankLines = 2, CommentLines = 0\<rparr>)] 0 1 = Some False \<and>
   Name (row ''C'' \<lparr>FileCount = 1, TotalLines = 5, CodeLines = 5, BlankLines = 0, CommentLines = 0\<rparr>) <
     Name (row ''Go'' \<lparr>FileCount = 2, TotalLines = 7, CodeLines = 5, BlankLines = 2, CommentLines = 0\<rparr>) \<and>
   \<not> sortResult
     [(row ''C'' \<lparr>FileCount = 1, TotalLines = 5, CodeLines = 5, BlankLines = 0, CommentLines = 0\<rparr>),
      (row ''Go'' \<lparr>FileCount = 2, TotalLines = 7, CodeLines = 5, BlankLines = 2, CommentLines = 0\<rparr>)]
     [(row ''C'' \<lparr>FileCount = 1, TotalLines = 5, CodeLines = 5, BlankLines = 0, CommentLines = 0\<rparr>),
      (row ''Go'' \<lparr>FileCount = 2, TotalLines = 7, CodeLines = 5, BlankLines = 2, CommentLines = 0\<rparr>)] \<and>
   sortResult
     [(row ''C'' \<lparr>FileCount = 1, TotalLines = 5, CodeLines = 5, BlankLines = 0, CommentLines = 0\<rparr>),
      (row ''Go'' \<lparr>FileCount = 2, TotalLines = 7, CodeLines = 5, BlankLines = 2, CommentLines = 0\<rparr>)]
     [(row ''Go'' \<lparr>FileCount = 2, TotalLines = 7, CodeLines = 5, BlankLines = 2, CommentLines = 0\<rparr>),
      (row ''C'' \<lparr>FileCount = 1, TotalLines = 5, CodeLines = 5, BlankLines = 0, CommentLines = 0\<rparr>)]"
  by (simp add: Less_def rowLess_def sortResult_def inOrder_def row_def)




end
